theory Spec2Isabelle
  imports Main
begin

section \<open>Data model of \<open>src/components/Gallery.tsx\<close>\<close>

text \<open>
  The interface \<open>GalleryImage\<close> (lines 7-15). The records come from an unvalidated JSON
  response, and the component itself guards against a missing \<open>src\<close> and \<open>alt\<close>
  (\<open>img.src || ''\<close>, \<open>img.alt || 'Gallery image'\<close>), so every string field except the
  render key is optional here: \<open>None\<close> is JavaScript's \<open>undefined\<close>.
\<close>

record GalleryImage =
  src :: "string option"
  alt :: "string option"
  id' :: string
  title :: "string option"
  thumbnail :: "string option"
  createdTime :: "string option"
  takenDate :: "string option"

text \<open>The five \<open>useState\<close> cells of the component (lines 18-22); \<open>None\<close> is \<open>null\<close>.\<close>

record GalleryState =
  images :: "GalleryImage list"
  selectedImage :: "string option"
  selectedImageIndex :: "int option"
  loading :: bool
  error :: "string option"

definition initial :: GalleryState where
  "initial = \<lparr>images = [], selectedImage = None, selectedImageIndex = None,
              loading = True, error = None\<rparr>"

text \<open>
  JavaScript truthiness of a value of type \<open>string | null | undefined\<close>: \<open>null\<close>,
  \<open>undefined\<close> and the empty string are falsy.
\<close>

fun truthy :: "string option \<Rightarrow> bool" where
  "truthy None = False"
| "truthy (Some s) = (s \<noteq> [])"

text \<open>\<open>a || d\<close> for an optional string \<open>a\<close> and a string default \<open>d\<close>.\<close>

definition or_default :: "string option \<Rightarrow> string \<Rightarrow> string" where
  "or_default a d = (case a of None \<Rightarrow> d | Some s \<Rightarrow> if s = [] then d else s)"

text \<open>
  \<open>xs[i]\<close>: \<open>undefined\<close> outside the array. Reading a property of \<open>undefined\<close> throws a
  \<open>TypeError\<close>.
\<close>

datatype js_exn = TypeError

definition at_index :: "'a list \<Rightarrow> int \<Rightarrow> 'a option" where
  "at_index xs i = (if 0 \<le> i \<and> i < int (length xs) then Some (xs ! nat i) else None)"

text \<open>Decimal rendering of a number in a template literal.\<close>

fun show_nat :: "nat \<Rightarrow> string" where
  "show_nat n = (if n < 10 then [''0123456789'' ! n]
                 else show_nat (n div 10) @ [''0123456789'' ! (n mod 10)])"

declare show_nat.simps [simp del]

definition show_int :: "int \<Rightarrow> string" where
  "show_int i = (if i < 0 then ''-'' @ show_nat (nat (- i)) else show_nat (nat i))"

section \<open>Lightbox controller (lines 57-79)\<close>

definition openImage :: "string \<Rightarrow> int \<Rightarrow> GalleryState \<Rightarrow> GalleryState" where
  "openImage s index st0 = st0\<lparr>selectedImage := Some s, selectedImageIndex := Some index\<rparr>"

definition closeImage :: "GalleryState \<Rightarrow> GalleryState" where
  "closeImage st0 = st0\<lparr>selectedImage := None, selectedImageIndex := None\<rparr>"

datatype direction = Prev | Next

definition navigateImage :: "direction \<Rightarrow> GalleryState \<Rightarrow> js_exn + GalleryState" where
  "navigateImage dir st0 =
     (case selectedImageIndex st0 of
        None \<Rightarrow> Inr st0
      | Some i \<Rightarrow>
          if length (images st0) = 0 then Inr st0
          else
            let newIndex =
                  (case dir of
                     Prev \<Rightarrow> if i > 0 then i - 1 else int (length (images st0)) - 1
                   | Next \<Rightarrow> if i < int (length (images st0)) - 1 then i + 1 else 0)
            in (case at_index (images st0) newIndex of
                  None \<Rightarrow> Inl TypeError
                | Some img \<Rightarrow>
                    Inr (st0\<lparr>selectedImage := src img, selectedImageIndex := Some newIndex\<rparr>)))"

text \<open>\<open>navigateImage\<close> called \<open>k\<close> times in a row; an exception ends the run.\<close>

fun navigate_times :: "nat \<Rightarrow> direction \<Rightarrow> GalleryState \<Rightarrow> js_exn + GalleryState" where
  "navigate_times 0 dir st0 = Inr st0"
| "navigate_times (Suc k) dir st0 =
     (case navigateImage dir st0 of Inl e \<Rightarrow> Inl e | Inr st1 \<Rightarrow> navigate_times k dir st1)"

section \<open>Keyboard router (lines 82-97)\<close>

definition handleKeyDown :: "string \<Rightarrow> GalleryState \<Rightarrow> js_exn + GalleryState" where
  "handleKeyDown key st0 =
     (if \<not> truthy (selectedImage st0) then Inr st0
      else if key = ''Escape'' then Inr (closeImage st0)
      else if key = ''ArrowLeft'' then navigateImage Prev st0
      else if key = ''ArrowRight'' then navigateImage Next st0
      else Inr st0)"

section \<open>Data loader (lines 24-55)\<close>

text \<open>
  A thrown value is either an instance of \<open>Error\<close>, of which the handler reads the
  \<open>message\<close>, or any other value, of which the string here is a printed form.
\<close>

datatype thrown = ErrorInstance string | NonError string

text \<open>
  What the component reads of the response: \<open>status\<close>, \<open>statusText\<close> and the outcome of
  \<open>response.json()\<close>, which rejects or yields the parsed body. The state cell is typed
  \<open>GalleryImage[]\<close>, so the body is an array of records. \<open>response.ok\<close> is, by the Fetch
  standard, true exactly for a status from 200 to 299.
\<close>

record Response =
  status :: nat
  statusText :: string
  json :: "thrown + GalleryImage list"

definition ok :: "Response \<Rightarrow> bool" where
  "ok response = (200 \<le> status response \<and> status response \<le> 299)"

datatype fetch_result = Rejects thrown | Resolves Response

text \<open>
  \<open>fetchImages\<close> runs up to the \<open>await\<close> when the effect fires, and the rest when the
  request settles. The body of the \<open>try\<close> after the \<open>await\<close> (the \<open>console.log\<close> calls
  change no state and are left out):
\<close>

definition fetchImages_begin :: "GalleryState \<Rightarrow> GalleryState" where
  "fetchImages_begin st0 = st0\<lparr>loading := True\<rparr>"

definition fetchImages_try :: "fetch_result \<Rightarrow> GalleryState \<Rightarrow> thrown + GalleryState" where
  "fetchImages_try r st0 =
     (case r of
        Rejects e \<Rightarrow> Inl e
      | Resolves response \<Rightarrow>
          if \<not> ok response then
            Inl (ErrorInstance (''Failed to fetch images: '' @ show_nat (status response)
                                 @ '' '' @ statusText response))
          else (case json response of
                  Inl e \<Rightarrow> Inl e
                | Inr data \<Rightarrow> Inr (st0\<lparr>images := data\<rparr>)))"

text \<open>The \<open>catch\<close> and \<open>finally\<close> clauses around it.\<close>

definition fetchImages_resume :: "fetch_result \<Rightarrow> GalleryState \<Rightarrow> GalleryState" where
  "fetchImages_resume r st0 =
     (let st1 = (case fetchImages_try r st0 of
                   Inl err \<Rightarrow>
                     st0\<lparr>error := Some (case err of
                                           ErrorInstance message \<Rightarrow> message
                                         | NonError _ \<Rightarrow> ''Failed to load gallery images'')\<rparr>
                 | Inr st' \<Rightarrow> st')
      in st1\<lparr>loading := False\<rparr>)"

section \<open>Rendering (lines 99-321)\<close>

text \<open>
  \<open>formatDate\<close> (lines 100-108). The platform's \<open>Date\<close> parsing and
  \<open>toLocaleDateString('en-US', ...)\<close> are the parameter \<open>loc\<close>.
\<close>

definition formatDate :: "(string \<Rightarrow> string) \<Rightarrow> string option \<Rightarrow> string" where
  "formatDate loc dateString =
     (case dateString of None \<Rightarrow> [] | Some d \<Rightarrow> if d = [] then [] else loc d)"

text \<open>
  The date line of a grid tile (lines 210-218) and of the lightbox (lines 305-313);
  \<open>None\<close> when the expression yields a falsy value, for which nothing is rendered.
\<close>

definition tileDateLine :: "(string \<Rightarrow> string) \<Rightarrow> GalleryImage \<Rightarrow> string option" where
  "tileDateLine loc img =
     (if truthy (takenDate img) then Some (''Taken '' @ formatDate loc (takenDate img))
      else if truthy (createdTime img) then
        Some (''Uploaded '' @ formatDate loc (createdTime img))
      else None)"

definition lightboxDateLine ::
    "(string \<Rightarrow> string) \<Rightarrow> GalleryImage list \<Rightarrow> int \<Rightarrow> js_exn + string option" where
  "lightboxDateLine loc imgs i =
     (case at_index imgs i of
        None \<Rightarrow> Inl TypeError
      | Some img \<Rightarrow>
          Inr (if truthy (takenDate img) then
                 Some (''Taken '' @ formatDate loc (takenDate img))
               else if truthy (createdTime img) then
                 Some (''Uploaded '' @ formatDate loc (createdTime img))
               else None))"

text \<open>What a tile shows, and the arguments its \<open>onClick\<close> passes to \<open>openImage\<close>.\<close>

record Tile =
  tile_key :: string
  tile_src :: string
  tile_alt :: string
  tile_title :: "string option"
  tile_date :: "string option"
  tile_onClick :: "string \<times> int"

definition renderTile :: "(string \<Rightarrow> string) \<Rightarrow> nat \<times> GalleryImage \<Rightarrow> Tile" where
  "renderTile loc p =
     (case p of (index, img) \<Rightarrow>
        \<lparr>tile_key = id' img,
         tile_src = or_default (src img) (or_default (src img) []),
         tile_alt = or_default (alt img) ''Gallery image'',
         tile_title = (if truthy (title img) then title img else None),
         tile_date = tileDateLine loc img,
         tile_onClick = (or_default (src img) [], int index)\<rparr>)"

record Overlay =
  overlay_src :: string
  overlay_counter :: string
  overlay_date :: "string option"

definition renderOverlay ::
    "(string \<Rightarrow> string) \<Rightarrow> GalleryState \<Rightarrow> js_exn + Overlay option" where
  "renderOverlay loc st0 =
     (case selectedImage st0 of
        None \<Rightarrow> Inr None
      | Some sel \<Rightarrow>
          if sel = [] then Inr None
          else (case selectedImageIndex st0 of
                  None \<Rightarrow> Inr None
                | Some i \<Rightarrow>
                    (case lightboxDateLine loc (images st0) i of
                       Inl e \<Rightarrow> Inl e
                     | Inr d \<Rightarrow>
                         Inr (Some \<lparr>overlay_src = sel,
                                    overlay_counter =
                                      show_int (i + 1) @ '' / ''
                                        @ show_nat (length (images st0)),
                                    overlay_date = d\<rparr>))))"

datatype View =
    LoadingView string
  | ErrorView string string
  | EmptyView string string
  | GridView "Tile list" "Overlay option"

definition render :: "(string \<Rightarrow> string) \<Rightarrow> GalleryState \<Rightarrow> js_exn + View" where
  "render loc st0 =
     (if loading st0 then Inr (LoadingView ''Loading gallery...'')
      else if truthy (error st0) then
        Inr (ErrorView ''Failed to load gallery'' (the (error st0)))
      else if length (images st0) = 0 then
        Inr (EmptyView ''No Images Found''
               ''There are no images available in the gallery. Please check your Google Drive folder.'')
      else (case renderOverlay loc st0 of
              Inl e \<Rightarrow> Inl e
            | Inr ov \<Rightarrow> Inr (GridView (map (renderTile loc) (enumerate 0 (images st0))) ov)))"

section \<open>The mounted component and its events\<close>

text \<open>
  The component with what it has registered outside its state: the request of line 28
  while it has not settled, and the \<open>keydown\<close> listener of line 95. The first effect
  (lines 24-55) returns no cleanup; the second returns the removal of the listener
  (line 96). Unmounting runs the cleanups. The source puts no guard before the setter
  calls of \<open>fetchImages\<close>, so \<open>st\<close> holds the values last passed to the setters, also
  when the request settles after the unmount; what React then does with such a call is
  not in the source.
\<close>

record World =
  st :: GalleryState
  mounted :: bool
  fetch_pending :: bool
  keydown_listener :: bool

definition mount :: World where
  "mount = \<lparr>st = fetchImages_begin initial, mounted = True, fetch_pending = True,
            keydown_listener = True\<rparr>"

definition unmount :: "World \<Rightarrow> World" where
  "unmount w = w\<lparr>mounted := False, keydown_listener := False\<rparr>"

datatype target = TileAt nat | Backdrop | PrevButton | NextButton | CloseButton | TryAgain

datatype event = Settled fetch_result | KeyDown string | Click target | Unmount

text \<open>The handler that the rendered view binds to a click target, if it has such a target.\<close>

definition click :: "View \<Rightarrow> target \<Rightarrow> World \<Rightarrow> js_exn + World" where
  "click v t w =
     (case v of
        GridView tiles ov \<Rightarrow>
          (case t of
             TileAt k \<Rightarrow>
               if k < length tiles then
                 Inr (w\<lparr>st := openImage (fst (tile_onClick (tiles ! k)))
                                         (snd (tile_onClick (tiles ! k))) (st w)\<rparr>)
               else Inr w
           | TryAgain \<Rightarrow> Inr w
           | _ \<Rightarrow>
               if ov = None then Inr w
               else (case t of
                       PrevButton \<Rightarrow>
                         (case navigateImage Prev (st w) of
                            Inl e \<Rightarrow> Inl e | Inr s \<Rightarrow> Inr (w\<lparr>st := s\<rparr>))
                     | NextButton \<Rightarrow>
                         (case navigateImage Next (st w) of
                            Inl e \<Rightarrow> Inl e | Inr s \<Rightarrow> Inr (w\<lparr>st := s\<rparr>))
                     | _ \<Rightarrow> Inr (w\<lparr>st := closeImage (st w)\<rparr>)))
      | ErrorView _ _ \<Rightarrow> (case t of TryAgain \<Rightarrow> Inr mount | _ \<Rightarrow> Inr w)
      | _ \<Rightarrow> Inr w)"

definition step :: "(string \<Rightarrow> string) \<Rightarrow> event \<Rightarrow> World \<Rightarrow> js_exn + World" where
  "step loc e w =
     (case e of
        Settled r \<Rightarrow>
          if fetch_pending w then
            Inr (w\<lparr>st := fetchImages_resume r (st w), fetch_pending := False\<rparr>)
          else Inr w
      | Unmount \<Rightarrow> Inr (unmount w)
      | KeyDown key \<Rightarrow>
          if keydown_listener w then
            (case handleKeyDown key (st w) of
               Inl x \<Rightarrow> Inl x | Inr s \<Rightarrow> Inr (w\<lparr>st := s\<rparr>))
          else Inr w
      | Click t \<Rightarrow>
          if \<not> mounted w then Inr w
          else (case render loc (st w) of Inl x \<Rightarrow> Inl x | Inr v \<Rightarrow> click v t w))"

text \<open>The worlds that a sequence of events leads to from the mount, no handler throwing.\<close>

inductive reachable :: "(string \<Rightarrow> string) \<Rightarrow> World \<Rightarrow> bool" for loc where
  reach_mount: "reachable loc mount"
| reach_step: "reachable loc w \<Longrightarrow> step loc e w = Inr w' \<Longrightarrow> reachable loc w'"

section \<open>Derived notions\<close>

text \<open>The condition under which the overlay is rendered (line 227).\<close>

definition lightbox_open :: "GalleryState \<Rightarrow> bool" where
  "lightbox_open s = (truthy (selectedImage s) \<and> selectedImageIndex s \<noteq> None)"

text \<open>
  The selected index lies inside the loaded sequence, and without a selected index
  no source string is selected.
\<close>

definition index_ok :: "GalleryState \<Rightarrow> bool" where
  "index_ok s =
     (case selectedImageIndex s of
        None \<Rightarrow> \<not> truthy (selectedImage s)
      | Some i \<Rightarrow> 0 \<le> i \<and> i < int (length (images s)))"

text \<open>While the request is in flight the spinner is shown and nothing is selected.\<close>

definition world_ok :: "World \<Rightarrow> bool" where
  "world_ok w =
     (index_ok (st w)
      \<and> (if fetch_pending w then
           loading (st w) \<and> selectedImage (st w) = None \<and> selectedImageIndex (st w) = None
         else True))"

text \<open>A sequence of events, stopping at the first exception.\<close>

fun run :: "(string \<Rightarrow> string) \<Rightarrow> event list \<Rightarrow> World \<Rightarrow> js_exn + World" where
  "run loc [] w = Inr w"
| "run loc (e # es) w = (case step loc e w of Inl x \<Rightarrow> Inl x | Inr w' \<Rightarrow> run loc es w')"

definition tiles_of :: "View \<Rightarrow> Tile list" where
  "tiles_of v = (case v of GridView tiles ov \<Rightarrow> tiles | _ \<Rightarrow> [])"

section \<open>Sample inputs\<close>

definition imgA :: GalleryImage where
  "imgA = \<lparr>src = Some ''/a.jpg'', alt = Some ''A'', id' = ''a'', title = Some ''A'',
           thumbnail = None, createdTime = Some ''2024-03-02'',
           takenDate = Some ''2024-03-01''\<rparr>"

definition imgB :: GalleryImage where
  "imgB = \<lparr>src = Some ''/b.jpg'', alt = None, id' = ''b'', title = None,
           thumbnail = None, createdTime = Some ''2024-02-02'', takenDate = None\<rparr>"

definition imgC :: GalleryImage where
  "imgC = \<lparr>src = Some ''/c.jpg'', alt = Some ''C'', id' = ''c'', title = Some ''C'',
           thumbnail = None, createdTime = None, takenDate = None\<rparr>"

definition imgBlankTaken :: GalleryImage where
  "imgBlankTaken = \<lparr>src = Some ''/d.jpg'', alt = Some ''D'', id' = ''d'', title = None,
           thumbnail = None, createdTime = Some ''2024-02-02'', takenDate = Some []\<rparr>"

definition imgEmptySrc :: GalleryImage where
  "imgEmptySrc = \<lparr>src = Some [], alt = Some ''E'', id' = ''e'', title = None,
           thumbnail = None, createdTime = None, takenDate = None\<rparr>"

definition imgNoSrc :: GalleryImage where
  "imgNoSrc = \<lparr>src = None, alt = None, id' = ''n'', title = None,
           thumbnail = None, createdTime = None, takenDate = None\<rparr>"

definition serverError :: Response where
  "serverError = \<lparr>status = 500, statusText = ''Internal Server Error'', json = Inr []\<rparr>"

definition okEmpty :: Response where
  "okEmpty = \<lparr>status = 200, statusText = ''OK'', json = Inr []\<rparr>"

definition okABC :: Response where
  "okABC = \<lparr>status = 200, statusText = ''OK'', json = Inr [imgA, imgB, imgC]\<rparr>"

definition okAEC :: Response where
  "okAEC = \<lparr>status = 200, statusText = ''OK'', json = Inr [imgA, imgEmptySrc, imgC]\<rparr>"

definition okAEN :: Response where
  "okAEN = \<lparr>status = 200, statusText = ''OK'', json = Inr [imgA, imgEmptySrc, imgNoSrc]\<rparr>"

text \<open>The state after the endpoint has answered with the given records.\<close>

definition loaded :: "GalleryImage list \<Rightarrow> GalleryState" where
  "loaded imgs = \<lparr>images = imgs, selectedImage = None, selectedImageIndex = None,
                  loading = False, error = None\<rparr>"

text \<open>The mounted component in a given state, its request settled.\<close>

definition world_of :: "GalleryState \<Rightarrow> World" where
  "world_of s = \<lparr>st = s, mounted = True, fetch_pending = False, keydown_listener = True\<rparr>"

section \<open>Wraparound navigation\<close>

lemma navigateImage_Next_mod:
  assumes "selectedImageIndex s = Some i" "0 \<le> i" "i < int (length (images s))"
  shows "\<exists>s'. navigateImage Next s = Inr s'
           \<and> selectedImageIndex s' = Some ((i + 1) mod int (length (images s)))
           \<and> images s' = images s"
proof (cases "i < int (length (images s)) - 1")
  case True
  then have "(i + 1) mod int (length (images s)) = i + 1"
    using assms by simp
  with True assms show ?thesis
    by (auto simp add: navigateImage_def at_index_def Let_def)
next
  case False
  then have "i + 1 = int (length (images s))" using assms by linarith
  then have "(i + 1) mod int (length (images s)) = 0" by simp
  with False assms show ?thesis
    by (auto simp add: navigateImage_def at_index_def Let_def)
qed

lemma navigateImage_Prev_mod:
  assumes "selectedImageIndex s = Some i" "0 \<le> i" "i < int (length (images s))"
  shows "\<exists>s'. navigateImage Prev s = Inr s'
           \<and> selectedImageIndex s' = Some ((i - 1) mod int (length (images s)))
           \<and> images s' = images s"
proof (cases "i > 0")
  case True
  then have "(i - 1) mod int (length (images s)) = i - 1"
    using assms by simp
  with True assms show ?thesis
    by (auto simp add: navigateImage_def at_index_def Let_def)
next
  case False
  then have i0: "i = 0" using assms by linarith
  have "(- 1) mod int (length (images s)) = int (length (images s)) - 1"
    using assms i0 by (simp add: zmod_minus1)
  with i0 assms show ?thesis
    by (auto simp add: navigateImage_def at_index_def Let_def)
qed

text \<open>After \<open>k\<close> steps the index has moved by \<open>k\<close> modulo the number of images.\<close>

lemma navigate_times_Next:
  assumes "selectedImageIndex s = Some i" "0 \<le> i" "i < int (length (images s))"
  shows "\<exists>s'. navigate_times k Next s = Inr s'
           \<and> selectedImageIndex s' = Some ((i + int k) mod int (length (images s)))
           \<and> images s' = images s"
  using assms
proof (induction k arbitrary: s i)
  case 0
  then show ?case by simp
next
  case (Suc k)
  from navigateImage_Next_mod [OF Suc.prems]
  obtain s1 where s1: "navigateImage Next s = Inr s1"
      "selectedImageIndex s1 = Some ((i + 1) mod int (length (images s)))"
      "images s1 = images s"
    by blast
  have pos: "0 < int (length (images s))" using Suc.prems by linarith
  have "\<exists>s'. navigate_times k Next s1 = Inr s'
           \<and> selectedImageIndex s' =
               Some (((i + 1) mod int (length (images s1)) + int k) mod int (length (images s1)))
           \<and> images s' = images s1"
    using s1 pos by (intro Suc.IH) simp_all
  moreover have "((i + 1) mod int (length (images s)) + int k) mod int (length (images s))
      = (i + int (Suc k)) mod int (length (images s))"
    using mod_add_left_eq [of "i + 1" "int (length (images s))" "int k"]
    by (simp add: algebra_simps)
  ultimately show ?case using s1 by simp
qed

lemma navigate_times_Prev:
  assumes "selectedImageIndex s = Some i" "0 \<le> i" "i < int (length (images s))"
  shows "\<exists>s'. navigate_times k Prev s = Inr s'
           \<and> selectedImageIndex s' = Some ((i - int k) mod int (length (images s)))
           \<and> images s' = images s"
  using assms
proof (induction k arbitrary: s i)
  case 0
  then show ?case by simp
next
  case (Suc k)
  from navigateImage_Prev_mod [OF Suc.prems]
  obtain s1 where s1: "navigateImage Prev s = Inr s1"
      "selectedImageIndex s1 = Some ((i - 1) mod int (length (images s)))"
      "images s1 = images s"
    by blast
  have pos: "0 < int (length (images s))" using Suc.prems by linarith
  have "\<exists>s'. navigate_times k Prev s1 = Inr s'
           \<and> selectedImageIndex s' =
               Some (((i - 1) mod int (length (images s1)) - int k) mod int (length (images s1)))
           \<and> images s' = images s1"
    using s1 pos by (intro Suc.IH) simp_all
  moreover have "((i - 1) mod int (length (images s)) - int k) mod int (length (images s))
      = (i - int (Suc k)) mod int (length (images s))"
    using mod_diff_left_eq [of "i - 1" "int (length (images s))" "int k"]
    by (simp add: algebra_simps)
  ultimately show ?case using s1 by simp
qed

text \<open>
  Claim C1. For a non-empty sequence of \<open>n\<close> images and a selected index \<open>i\<close> with
  \<open>0 \<le> i < n\<close>, \<open>navigateImage\<close> returns normally; \<open>'prev'\<close> selects \<open>i - 1\<close> when
  \<open>i > 0\<close> and \<open>n - 1\<close> when \<open>i = 0\<close>; \<open>'next'\<close> selects \<open>i + 1\<close> when \<open>i < n - 1\<close> and \<open>0\<close>
  when \<open>i = n - 1\<close>; and \<open>n\<close> calls in one direction, either of the two, select \<open>i\<close>
  again.
\<close>

theorem navigateImage_wraparound_cycle:
  assumes "images s \<noteq> []" and "n = int (length (images s))"
    and "selectedImageIndex s = Some i" and "0 \<le> i" and "i < n"
  shows "(\<exists>s'. navigateImage Prev s = Inr s'
            \<and> selectedImageIndex s' = Some (if i > 0 then i - 1 else n - 1))
       \<and> (\<exists>s'. navigateImage Next s = Inr s'
            \<and> selectedImageIndex s' = Some (if i < n - 1 then i + 1 else 0))
       \<and> (\<exists>s'. navigate_times (length (images s)) Prev s = Inr s'
            \<and> selectedImageIndex s' = Some i)
       \<and> (\<exists>s'. navigate_times (length (images s)) Next s = Inr s'
            \<and> selectedImageIndex s' = Some i)"
proof -
  have rng: "i < int (length (images s))" using assms by simp
  have p: "\<exists>s'. navigateImage Prev s = Inr s'
            \<and> selectedImageIndex s' = Some (if i > 0 then i - 1 else n - 1)"
    using assms by (auto simp add: navigateImage_def at_index_def Let_def)
  have q: "\<exists>s'. navigateImage Next s = Inr s'
            \<and> selectedImageIndex s' = Some (if i < n - 1 then i + 1 else 0)"
    using assms by (auto simp add: navigateImage_def at_index_def Let_def)
  have wrap: "(i - n) mod n = i" "(i + n) mod n = i"
    using assms by simp_all
  have cp: "\<exists>s'. navigate_times (length (images s)) Prev s = Inr s'
            \<and> selectedImageIndex s' = Some i"
    using navigate_times_Prev [OF assms(3) assms(4) rng, of "length (images s)"] wrap assms(2)
    by auto
  have cn: "\<exists>s'. navigate_times (length (images s)) Next s = Inr s'
            \<and> selectedImageIndex s' = Some i"
    using navigate_times_Next [OF assms(3) assms(4) rng, of "length (images s)"] wrap assms(2)
    by auto
  from p q cp cn show ?thesis by blast
qed

theorem navigateImage_wraparound_cycle_witness:
  "images (openImage ''/a.jpg'' 0 (loaded [imgA, imgB, imgC])) \<noteq> []
   \<and> selectedImageIndex (openImage ''/a.jpg'' 0 (loaded [imgA, imgB, imgC])) = Some 0
   \<and> (\<exists>s'. navigateImage Prev (openImage ''/a.jpg'' 0 (loaded [imgA, imgB, imgC])) = Inr s'
         \<and> selectedImageIndex s' = Some 2)
   \<and> (\<exists>s'. navigateImage Next (openImage ''/a.jpg'' 0 (loaded [imgA, imgB, imgC])) = Inr s'
         \<and> selectedImageIndex s' = Some 1)
   \<and> (\<exists>s'. navigate_times 3 Prev (openImage ''/a.jpg'' 0 (loaded [imgA, imgB, imgC])) = Inr s'
         \<and> selectedImageIndex s' = Some 0)
   \<and> (\<exists>s'. navigate_times 3 Next (openImage ''/a.jpg'' 0 (loaded [imgA, imgB, imgC])) = Inr s'
         \<and> selectedImageIndex s' = Some 0)"
  using navigateImage_wraparound_cycle
          [of "openImage ''/a.jpg'' 0 (loaded [imgA, imgB, imgC])" 3 0]
  by (simp add: openImage_def loaded_def numeral_3_eq_3)

section \<open>Date labels\<close>

text \<open>
  A record whose \<open>takenDate\<close> is the empty string and whose \<open>createdTime\<close> is a date:
  the field is set, yet the tile and the lightbox both show the upload date, since the
  test at lines 210 and 305 is one of truthiness.
\<close>

theorem date_label_blank_takenDate:
  "takenDate imgBlankTaken = Some [] \<and> createdTime imgBlankTaken = Some ''2024-02-02''
   \<and> tileDateLine id imgBlankTaken = Some ''Uploaded 2024-02-02''
   \<and> lightboxDateLine id [imgBlankTaken] 0 = Inr (Some ''Uploaded 2024-02-02'')"
  by (simp add: imgBlankTaken_def tileDateLine_def lightboxDateLine_def at_index_def
      formatDate_def)

text \<open>
  Claim C3, amended. For the record at position \<open>i\<close> of the sequence, in its grid tile and
  in the lightbox alike: when \<open>takenDate\<close> is a non-empty string the date line is
  \<open>Taken\<close> followed by that date formatted, whatever \<open>createdTime\<close> is; when \<open>takenDate\<close> is
  absent or empty and \<open>createdTime\<close> is a non-empty string the date line is \<open>Uploaded\<close>
  followed by that date formatted; when both are absent or empty there is no date line.
\<close>

theorem date_label_precedence:
  assumes "at_index imgs i = Some img"
  shows "(\<forall>t. takenDate img = Some t \<and> t \<noteq> [] \<longrightarrow>
            tileDateLine loc img = Some (''Taken '' @ loc t)
            \<and> lightboxDateLine loc imgs i = Inr (Some (''Taken '' @ loc t)))
       \<and> (\<forall>c. \<not> truthy (takenDate img) \<and> createdTime img = Some c \<and> c \<noteq> [] \<longrightarrow>
            tileDateLine loc img = Some (''Uploaded '' @ loc c)
            \<and> lightboxDateLine loc imgs i = Inr (Some (''Uploaded '' @ loc c)))
       \<and> (\<not> truthy (takenDate img) \<and> \<not> truthy (createdTime img) \<longrightarrow>
            tileDateLine loc img = None \<and> lightboxDateLine loc imgs i = Inr None)"
  using assms by (simp add: tileDateLine_def lightboxDateLine_def formatDate_def)

theorem date_label_precedence_witness:
  "at_index [imgA, imgB, imgC] 0 = Some imgA
   \<and> tileDateLine id imgA = Some ''Taken 2024-03-01''
   \<and> lightboxDateLine id [imgA, imgB, imgC] 0 = Inr (Some ''Taken 2024-03-01'')
   \<and> at_index [imgA, imgB, imgC] 1 = Some imgB
   \<and> tileDateLine id imgB = Some ''Uploaded 2024-02-02''
   \<and> lightboxDateLine id [imgA, imgB, imgC] 1 = Inr (Some ''Uploaded 2024-02-02'')
   \<and> at_index [imgA, imgB, imgC] 2 = Some imgC
   \<and> tileDateLine id imgC = None
   \<and> lightboxDateLine id [imgA, imgB, imgC] 2 = Inr None"
proof -
  have a: "at_index [imgA, imgB, imgC] 0 = Some imgA"
    and b: "at_index [imgA, imgB, imgC] 1 = Some imgB"
    and c: "at_index [imgA, imgB, imgC] 2 = Some imgC"
    by (simp_all add: at_index_def)
  show ?thesis
    using a b c date_label_precedence [OF a, of id] date_label_precedence [OF b, of id]
      date_label_precedence [OF c, of id]
    by (simp add: imgA_def imgB_def imgC_def)
qed

section \<open>Outcomes of the request\<close>

lemma show_nat_500: "show_nat 500 = ''500''"
  by code_simp

lemma show_nat_digits: "show_nat 2 = ''2''" "show_nat 3 = ''3''"
  by code_simp+

lemma show_int_Suc: "show_int (int k + 1) = show_nat (k + 1)"
  by (simp add: show_int_def nat_add_distrib)

text \<open>
  Claim C4. When the request resolves with a status outside 200-299, the state after
  \<open>fetchImages\<close> is no longer loading, its error is exactly
  \<open>Failed to fetch images: {status} {statusText}\<close>, and the error panel shows that message
  unchanged.
\<close>

theorem non_2xx_error_message:
  assumes "status response < 200 \<or> 299 < status response"
    and "msg = ''Failed to fetch images: '' @ show_nat (status response) @ '' ''
                 @ statusText response"
  shows "error (fetchImages_resume (Resolves response) s) = Some msg
       \<and> \<not> loading (fetchImages_resume (Resolves response) s)
       \<and> render loc (fetchImages_resume (Resolves response) s)
           = Inr (ErrorView ''Failed to load gallery'' msg)"
  using assms
  by (auto simp add: fetchImages_resume_def fetchImages_try_def ok_def render_def)

theorem non_2xx_error_message_witness:
  "(status serverError < 200 \<or> 299 < status serverError)
   \<and> loading (st mount)
   \<and> render id (st mount) = Inr (LoadingView ''Loading gallery...'')
   \<and> error (fetchImages_resume (Resolves serverError) (st mount))
       = Some ''Failed to fetch images: 500 Internal Server Error''
   \<and> render id (fetchImages_resume (Resolves serverError) (st mount))
       = Inr (ErrorView ''Failed to load gallery''
                ''Failed to fetch images: 500 Internal Server Error'')"
proof -
  have h: "status serverError < 200 \<or> 299 < status serverError"
    by (simp add: serverError_def)
  have m: "''Failed to fetch images: 500 Internal Server Error''
      = ''Failed to fetch images: '' @ show_nat (status serverError) @ '' ''
          @ statusText serverError"
    using show_nat_500 by (simp add: serverError_def)
  have l: "loading (st mount)"
    "render id (st mount) = Inr (LoadingView ''Loading gallery...'')"
    by (simp_all add: mount_def fetchImages_begin_def initial_def render_def)
  from h l non_2xx_error_message [OF h m, of "st mount" id] show ?thesis
    by simp
qed

text \<open>
  Claim C9. When the request, or the parsing of the body of a successful response,
  throws a value that is not an \<open>Error\<close> instance, the error message is the fixed string
  \<open>Failed to load gallery images\<close>, whatever the value; when it throws an \<open>Error\<close>
  instance, the error message is that instance's own message.
\<close>

theorem thrown_value_message:
  "error (fetchImages_resume (Rejects (NonError v)) s) = Some ''Failed to load gallery images''
   \<and> error (fetchImages_resume (Rejects (ErrorInstance m)) s) = Some m
   \<and> error (fetchImages_resume
              (Resolves \<lparr>status = 200, statusText = t, json = Inl (NonError v)\<rparr>) s)
       = Some ''Failed to load gallery images''
   \<and> error (fetchImages_resume
              (Resolves \<lparr>status = 200, statusText = t, json = Inl (ErrorInstance m)\<rparr>) s)
       = Some m"
  by (simp add: fetchImages_resume_def fetchImages_try_def ok_def)

theorem thrown_value_message_witness:
  "error (fetchImages_resume (Rejects (NonError ''timeout'')) (st mount))
     = Some ''Failed to load gallery images''
   \<and> error (fetchImages_resume (Rejects (ErrorInstance ''Failed to fetch'')) (st mount))
     = Some ''Failed to fetch''"
  using thrown_value_message [of "''timeout''" "st mount" "''Failed to fetch''" "''OK''"]
  by simp

text \<open>
  Claim C7. In a state that is not loading, has no error and holds an empty sequence, the
  component renders the empty-state panel with the heading \<open>No Images Found\<close> and its
  fixed body text, and the rendered view has no tiles.
\<close>

theorem empty_gallery_panel:
  assumes "\<not> loading s" and "\<not> truthy (error s)" and "images s = []"
  shows "render loc s = Inr (EmptyView ''No Images Found''
           ''There are no images available in the gallery. Please check your Google Drive folder.'')
       \<and> (\<forall>v. render loc s = Inr v \<longrightarrow> tiles_of v = [])"
  using assms by (simp add: render_def tiles_of_def)

theorem empty_gallery_panel_witness:
  "\<not> loading (fetchImages_resume (Resolves okEmpty) (st mount))
   \<and> \<not> truthy (error (fetchImages_resume (Resolves okEmpty) (st mount)))
   \<and> images (fetchImages_resume (Resolves okEmpty) (st mount)) = []
   \<and> render id (fetchImages_resume (Resolves okEmpty) (st mount))
       = Inr (EmptyView ''No Images Found''
           ''There are no images available in the gallery. Please check your Google Drive folder.'')"
proof -
  have a: "\<not> loading (fetchImages_resume (Resolves okEmpty) (st mount))"
    and b: "\<not> truthy (error (fetchImages_resume (Resolves okEmpty) (st mount)))"
    and c: "images (fetchImages_resume (Resolves okEmpty) (st mount)) = []"
    by (simp_all add: fetchImages_resume_def fetchImages_try_def ok_def okEmpty_def mount_def
        fetchImages_begin_def initial_def)
  from a b c empty_gallery_panel [OF a b c, of id] show ?thesis by simp
qed

section \<open>What holds in every reachable world\<close>

lemma navigateImage_index_ok:
  assumes "index_ok s"
  shows "\<exists>s'. navigateImage d s = Inr s' \<and> index_ok s' \<and> images s' = images s
           \<and> loading s' = loading s \<and> error s' = error s"
proof (cases "selectedImageIndex s")
  case None
  with assms show ?thesis by (simp add: navigateImage_def)
next
  case (Some i)
  with assms have rng: "0 \<le> i" "i < int (length (images s))"
    by (simp_all add: index_ok_def)
  show ?thesis
  proof (cases d)
    case Prev
    with Some rng show ?thesis
      by (auto simp add: navigateImage_def at_index_def Let_def index_ok_def)
  next
    case Next
    with Some rng show ?thesis
      by (auto simp add: navigateImage_def at_index_def Let_def index_ok_def)
  qed
qed

lemma closeImage_index_ok: "index_ok (closeImage s)"
  by (simp add: closeImage_def index_ok_def)

lemma handleKeyDown_index_ok:
  assumes "index_ok s"
  shows "\<exists>s'. handleKeyDown k s = Inr s' \<and> index_ok s' \<and> images s' = images s
           \<and> loading s' = loading s \<and> error s' = error s"
proof -
  consider (falsy) "\<not> truthy (selectedImage s)"
    | (esc) "truthy (selectedImage s)" "k = ''Escape''"
    | (left) "truthy (selectedImage s)" "k = ''ArrowLeft''"
    | (right) "truthy (selectedImage s)" "k = ''ArrowRight''"
    | (other) "truthy (selectedImage s)" "k \<noteq> ''Escape''" "k \<noteq> ''ArrowLeft''"
        "k \<noteq> ''ArrowRight''"
    by blast
  then show ?thesis
  proof cases
    case falsy
    with assms show ?thesis by (simp add: handleKeyDown_def)
  next
    case esc
    then have "handleKeyDown k s = Inr (closeImage s)" by (simp add: handleKeyDown_def)
    moreover have "images (closeImage s) = images s" "loading (closeImage s) = loading s"
      "error (closeImage s) = error s"
      by (simp_all add: closeImage_def)
    ultimately show ?thesis using closeImage_index_ok [of s] by simp
  next
    case left
    then have "handleKeyDown k s = navigateImage Prev s" by (simp add: handleKeyDown_def)
    with navigateImage_index_ok [OF assms, of Prev] show ?thesis by simp
  next
    case right
    then have "handleKeyDown k s = navigateImage Next s" by (simp add: handleKeyDown_def)
    with navigateImage_index_ok [OF assms, of Next] show ?thesis by simp
  next
    case other
    with assms show ?thesis by (simp add: handleKeyDown_def)
  qed
qed

lemma handleKeyDown_falsy: "\<not> truthy (selectedImage s) \<Longrightarrow> handleKeyDown k s = Inr s"
  by (simp add: handleKeyDown_def)

lemma renderOverlay_index_ok:
  assumes "index_ok s"
  shows "\<exists>ov. renderOverlay loc s = Inr ov \<and> (ov \<noteq> None) = lightbox_open s"
  using assms
  by (auto simp add: renderOverlay_def lightboxDateLine_def index_ok_def lightbox_open_def
      at_index_def split: option.splits)

lemma render_index_ok:
  assumes "index_ok s"
  shows "\<exists>v. render loc s = Inr v"
  using renderOverlay_index_ok [OF assms, of loc] by (auto simp add: render_def)

lemma render_GridView:
  assumes "render loc s = Inr (GridView tiles ov)"
  shows "\<not> loading s \<and> \<not> truthy (error s) \<and> images s \<noteq> []
       \<and> tiles = map (renderTile loc) (enumerate 0 (images s))
       \<and> renderOverlay loc s = Inr ov"
  using assms by (auto simp add: render_def split: if_splits sum.splits)

lemma tile_onClick_nth:
  assumes "k < length imgs"
  shows "tile_onClick (map (renderTile loc) (enumerate 0 imgs) ! k)
           = (or_default (src (imgs ! k)) [], int k)"
  using assms by (simp add: renderTile_def nth_enumerate_eq)

lemma resume_selection:
  "selectedImage (fetchImages_resume r s) = selectedImage s"
  "selectedImageIndex (fetchImages_resume r s) = selectedImageIndex s"
  by (simp_all add: fetchImages_resume_def Let_def fetchImages_try_def
      split: sum.splits fetch_result.splits)

lemma mount_ok: "world_ok mount"
  by (simp add: world_ok_def index_ok_def mount_def fetchImages_begin_def initial_def)

lemma click_ok:
  assumes ok: "world_ok w" and r: "render loc (st w) = Inr v"
  shows "\<exists>w'. click v t w = Inr w' \<and> world_ok w'"
proof (cases v)
  case (LoadingView x)
  with ok show ?thesis by (simp add: click_def)
next
  case (ErrorView h m)
  with ok mount_ok show ?thesis by (cases t) (simp_all add: click_def)
next
  case (EmptyView h b)
  with ok show ?thesis by (simp add: click_def)
next
  case (GridView tiles ov)
  note g = render_GridView [OF r [unfolded GridView]]
  from g ok have np: "\<not> fetch_pending w" by (auto simp add: world_ok_def)
  from ok have iok: "index_ok (st w)" by (simp add: world_ok_def)
  show ?thesis
  proof (cases t)
    case (TileAt k)
    show ?thesis
    proof (cases "k < length tiles")
      case True
      with g have k: "k < length (images (st w))" by simp
      from g tile_onClick_nth [OF k, of loc]
      have "tile_onClick (tiles ! k) = (or_default (src (images (st w) ! k)) [], int k)"
        by simp
      with True k np TileAt GridView show ?thesis
        by (simp add: click_def openImage_def world_ok_def index_ok_def)
    next
      case False
      with TileAt GridView ok show ?thesis by (simp add: click_def)
    qed
  next
    case Backdrop
    with GridView ok np show ?thesis
      by (simp add: click_def world_ok_def closeImage_index_ok)
  next
    case PrevButton
    from navigateImage_index_ok [OF iok, of Prev] PrevButton GridView ok np show ?thesis
      by (auto simp add: click_def world_ok_def)
  next
    case NextButton
    from navigateImage_index_ok [OF iok, of Next] NextButton GridView ok np show ?thesis
      by (auto simp add: click_def world_ok_def)
  next
    case CloseButton
    with GridView ok np show ?thesis
      by (simp add: click_def world_ok_def closeImage_index_ok)
  next
    case TryAgain
    with GridView ok show ?thesis by (simp add: click_def)
  qed
qed

lemma step_ok:
  assumes ok: "world_ok w"
  shows "\<exists>w'. step loc e w = Inr w' \<and> world_ok w'"
proof (cases e)
  case (Settled r)
  show ?thesis
  proof (cases "fetch_pending w")
    case True
    with ok have "selectedImage (st w) = None" "selectedImageIndex (st w) = None"
      by (simp_all add: world_ok_def)
    then have "index_ok (fetchImages_resume r (st w))"
      by (simp add: index_ok_def resume_selection)
    with True Settled show ?thesis by (simp add: step_def world_ok_def)
  next
    case False
    with ok Settled show ?thesis by (simp add: step_def)
  qed
next
  case (KeyDown k)
  from ok have iok: "index_ok (st w)" by (simp add: world_ok_def)
  show ?thesis
  proof (cases "fetch_pending w")
    case True
    with ok have "\<not> truthy (selectedImage (st w))" by (simp add: world_ok_def)
    from handleKeyDown_falsy [OF this] KeyDown ok show ?thesis
      by (simp add: step_def)
  next
    case False
    with handleKeyDown_index_ok [OF iok, of k] KeyDown ok show ?thesis
      by (auto simp add: step_def world_ok_def)
  qed
next
  case (Click t)
  from ok have iok: "index_ok (st w)" by (simp add: world_ok_def)
  from render_index_ok [OF iok, of loc] obtain v where v: "render loc (st w) = Inr v" ..
  from click_ok [OF ok v, of t] Click v ok show ?thesis
    by (auto simp add: step_def)
next
  case Unmount
  with ok show ?thesis by (simp add: step_def unmount_def world_ok_def)
qed

lemma reachable_ok: "reachable loc w \<Longrightarrow> world_ok w"
proof (induction rule: reachable.induct)
  case reach_mount
  show ?case by (rule mount_ok)
next
  case (reach_step w e w')
  from step_ok [OF reach_step.IH, of loc e] reach_step.hyps(2) show ?case by simp
qed

lemma run_reachable:
  "reachable loc w \<Longrightarrow> run loc es w = Inr w' \<Longrightarrow> reachable loc w'"
proof (induction es arbitrary: w)
  case Nil
  then show ?case by simp
next
  case (Cons e es)
  then show ?case
    by (auto split: sum.splits intro: reach_step)
qed

section \<open>Concrete runs\<close>

lemma run_empty_loaded:
  "run id [Settled (Resolves okEmpty)] mount = Inr (world_of (loaded []))"
  by (simp add: step_def mount_def fetchImages_resume_def fetchImages_try_def ok_def okEmpty_def
    world_of_def loaded_def fetchImages_begin_def initial_def)

lemma render_loaded:
  "imgs \<noteq> [] \<Longrightarrow> render loc (loaded imgs)
     = Inr (GridView (map (renderTile loc) (enumerate 0 imgs)) None)"
  by (simp add: render_def renderOverlay_def loaded_def)

lemma run_ABC_loaded: "run id [Settled (Resolves okABC)] mount = Inr (world_of (loaded [imgA, imgB, imgC]))"
  by (simp add: step_def mount_def fetchImages_resume_def fetchImages_try_def ok_def okABC_def
    world_of_def loaded_def fetchImages_begin_def initial_def)

lemma run_ABC_B: "run id [Settled (Resolves okABC), Click (TileAt 1)] mount
   = Inr (world_of (openImage ''/b.jpg'' 1 (loaded [imgA, imgB, imgC])))"
  by (simp add: step_def mount_def fetchImages_resume_def fetchImages_try_def ok_def okABC_def
    world_of_def loaded_def fetchImages_begin_def initial_def render_def renderOverlay_def
    click_def renderTile_def openImage_def or_default_def imgB_def)

lemma run_ABC_C: "run id [Settled (Resolves okABC), Click (TileAt 1), KeyDown ''ArrowRight''] mount
   = Inr (world_of (openImage ''/c.jpg'' 2 (loaded [imgA, imgB, imgC])))"
  by (simp add: step_def mount_def fetchImages_resume_def fetchImages_try_def ok_def okABC_def
    world_of_def loaded_def fetchImages_begin_def initial_def render_def renderOverlay_def
    click_def renderTile_def openImage_def or_default_def imgB_def imgC_def handleKeyDown_def
    navigateImage_def at_index_def)

lemma run_ABC_A: "run id [Settled (Resolves okABC), Click (TileAt 1), KeyDown ''ArrowRight'',
     KeyDown ''ArrowRight''] mount
   = Inr (world_of (openImage ''/a.jpg'' 0 (loaded [imgA, imgB, imgC])))"
  by (simp add: step_def mount_def fetchImages_resume_def fetchImages_try_def ok_def okABC_def
    world_of_def loaded_def fetchImages_begin_def initial_def render_def renderOverlay_def
    click_def renderTile_def openImage_def or_default_def imgA_def imgB_def imgC_def handleKeyDown_def
    navigateImage_def at_index_def)

lemma run_AEC_E: "run id [Settled (Resolves okAEC), Click (TileAt 1)] mount
   = Inr (world_of (openImage [] 1 (loaded [imgA, imgEmptySrc, imgC])))"
  by (simp add: step_def mount_def fetchImages_resume_def fetchImages_try_def ok_def okAEC_def
    world_of_def loaded_def fetchImages_begin_def initial_def render_def renderOverlay_def
    click_def renderTile_def openImage_def or_default_def imgEmptySrc_def)

section \<open>The lightbox\<close>

text \<open>
  Claim C5. In every world reachable from the mount, a selected index \<open>i\<close> satisfies
  \<open>0 \<le> i < length images\<close>; with an empty sequence no index is selected and no tile is
  rendered; every rendered tile passes its own position, an index of the sequence, to
  \<open>openImage\<close>; and neither \<open>navigateImage\<close> nor any other handler or the rendering
  throws.
\<close>

theorem lightbox_index_invariant:
  assumes "reachable loc w"
  shows "(\<forall>i. selectedImageIndex (st w) = Some i \<longrightarrow>
             0 \<le> i \<and> i < int (length (images (st w))))
       \<and> (images (st w) = [] \<longrightarrow>
             selectedImageIndex (st w) = None
             \<and> (\<forall>v. render loc (st w) = Inr v \<longrightarrow> tiles_of v = []))
       \<and> (\<forall>tiles ov k. render loc (st w) = Inr (GridView tiles ov) \<and> k < length tiles \<longrightarrow>
             k < length (images (st w)) \<and> snd (tile_onClick (tiles ! k)) = int k)
       \<and> (\<forall>d. \<exists>s'. navigateImage d (st w) = Inr s')
       \<and> (\<forall>e. \<exists>w'. step loc e w = Inr w')"
proof -
  from reachable_ok [OF assms] have ok: "world_ok w" .
  then have iok: "index_ok (st w)" by (simp add: world_ok_def)
  have a: "\<forall>i. selectedImageIndex (st w) = Some i \<longrightarrow>
             0 \<le> i \<and> i < int (length (images (st w)))"
    using iok by (auto simp add: index_ok_def)
  have b: "images (st w) = [] \<longrightarrow>
             selectedImageIndex (st w) = None
             \<and> (\<forall>v. render loc (st w) = Inr v \<longrightarrow> tiles_of v = [])"
  proof
    assume e: "images (st w) = []"
    with a have "selectedImageIndex (st w) = None"
      by (cases "selectedImageIndex (st w)") auto
    moreover from e have "\<forall>v. render loc (st w) = Inr v \<longrightarrow> tiles_of v = []"
      by (auto simp add: render_def tiles_of_def split: if_splits)
    ultimately show "selectedImageIndex (st w) = None
             \<and> (\<forall>v. render loc (st w) = Inr v \<longrightarrow> tiles_of v = [])" by simp
  qed
  have c: "\<forall>tiles ov k. render loc (st w) = Inr (GridView tiles ov) \<and> k < length tiles \<longrightarrow>
             k < length (images (st w)) \<and> snd (tile_onClick (tiles ! k)) = int k"
  proof (intro allI impI)
    fix tiles ov k
    assume h: "render loc (st w) = Inr (GridView tiles ov) \<and> k < length tiles"
    then have g: "tiles = map (renderTile loc) (enumerate 0 (images (st w)))"
      using render_GridView [of loc "st w" tiles ov] by simp
    with h have k: "k < length (images (st w))" by simp
    from tile_onClick_nth [OF k, of loc] g k
    show "k < length (images (st w)) \<and> snd (tile_onClick (tiles ! k)) = int k" by simp
  qed
  have d: "\<forall>d. \<exists>s'. navigateImage d (st w) = Inr s'"
    using navigateImage_index_ok [OF iok] by blast
  have e: "\<forall>e. \<exists>w'. step loc e w = Inr w'"
    using step_ok [OF ok] by blast
  from a b c d e show ?thesis by blast
qed

theorem lightbox_index_invariant_witness:
  "reachable id (world_of (openImage ''/a.jpg'' 0 (loaded [imgA, imgB, imgC])))
   \<and> selectedImageIndex (st (world_of (openImage ''/a.jpg'' 0 (loaded [imgA, imgB, imgC]))))
       = Some 0
   \<and> (0::int) < int (length (images (st (world_of (openImage ''/a.jpg'' 0
                                                   (loaded [imgA, imgB, imgC]))))))
   \<and> (\<exists>s'. navigateImage Prev (st (world_of (openImage ''/a.jpg'' 0
                                               (loaded [imgA, imgB, imgC])))) = Inr s')
   \<and> reachable id (world_of (loaded []))
   \<and> images (st (world_of (loaded []))) = []
   \<and> selectedImageIndex (st (world_of (loaded []))) = None
   \<and> reachable id (world_of (loaded [imgA, imgB, imgC]))
   \<and> render id (st (world_of (loaded [imgA, imgB, imgC])))
       = Inr (GridView (map (renderTile id) (enumerate 0 [imgA, imgB, imgC])) None)
   \<and> snd (tile_onClick (map (renderTile id) (enumerate 0 [imgA, imgB, imgC]) ! 1)) = 1"
proof -
  have r: "reachable id (world_of (openImage ''/a.jpg'' 0 (loaded [imgA, imgB, imgC])))"
    using run_reachable [OF reach_mount run_ABC_A] .
  have i: "selectedImageIndex (st (world_of (openImage ''/a.jpg'' 0
              (loaded [imgA, imgB, imgC])))) = Some 0"
    by (simp add: world_of_def openImage_def)
  have e: "reachable id (world_of (loaded []))"
    using run_reachable [OF reach_mount run_empty_loaded] .
  have n: "images (st (world_of (loaded []))) = []"
    by (simp add: world_of_def loaded_def)
  have l: "reachable id (world_of (loaded [imgA, imgB, imgC]))"
    using run_reachable [OF reach_mount run_ABC_loaded] .
  have v: "render id (st (world_of (loaded [imgA, imgB, imgC])))
       = Inr (GridView (map (renderTile id) (enumerate 0 [imgA, imgB, imgC])) None)"
    using render_loaded [of "[imgA, imgB, imgC]" id] by (simp add: world_of_def)
  have k: "1 < length (map (renderTile id) (enumerate 0 [imgA, imgB, imgC]))"
    by simp
  have first: "0 < int (length (images (st (world_of (openImage ''/a.jpg'' 0
                    (loaded [imgA, imgB, imgC]))))))
      \<and> (\<exists>s'. navigateImage Prev (st (world_of (openImage ''/a.jpg'' 0
                    (loaded [imgA, imgB, imgC])))) = Inr s')"
    using lightbox_index_invariant [OF r] i by blast
  have second: "selectedImageIndex (st (world_of (loaded []))) = None"
    using lightbox_index_invariant [OF e] n by blast
  have third: "snd (tile_onClick (map (renderTile id) (enumerate 0 [imgA, imgB, imgC]) ! 1))
      = int 1"
    using lightbox_index_invariant [OF l] v k by blast
  from r i e n l v first second third show ?thesis by simp
qed

text \<open>
  Claim C6. In every reachable world: while the overlay is rendered, \<open>Escape\<close> calls
  \<open>closeImage\<close>, \<open>ArrowLeft\<close> calls \<open>navigateImage('prev')\<close>, \<open>ArrowRight\<close> calls
  \<open>navigateImage('next')\<close> and any other key leaves the state as it is; while the
  overlay is not rendered, no key changes the state.
\<close>

theorem keyboard_router:
  assumes "reachable loc w"
  shows "(lightbox_open (st w) \<longrightarrow>
            handleKeyDown ''Escape'' (st w) = Inr (closeImage (st w))
            \<and> handleKeyDown ''ArrowLeft'' (st w) = navigateImage Prev (st w)
            \<and> handleKeyDown ''ArrowRight'' (st w) = navigateImage Next (st w)
            \<and> (key \<noteq> ''Escape'' \<and> key \<noteq> ''ArrowLeft'' \<and> key \<noteq> ''ArrowRight'' \<longrightarrow>
                 handleKeyDown key (st w) = Inr (st w)))
       \<and> (\<not> lightbox_open (st w) \<longrightarrow>
            handleKeyDown key (st w) = Inr (st w)
            \<and> step loc (KeyDown key) w = Inr w)"
proof -
  from reachable_ok [OF assms] have "index_ok (st w)" by (simp add: world_ok_def)
  then have closed: "\<not> lightbox_open (st w) \<longrightarrow> \<not> truthy (selectedImage (st w))"
    by (auto simp add: index_ok_def lightbox_open_def split: option.splits)
  have op: "lightbox_open (st w) \<longrightarrow> truthy (selectedImage (st w))"
    by (simp add: lightbox_open_def)
  have esc: "truthy (selectedImage (st w)) \<longrightarrow>
      handleKeyDown ''Escape'' (st w) = Inr (closeImage (st w))"
    by (simp add: handleKeyDown_def)
  have left: "truthy (selectedImage (st w)) \<longrightarrow>
      handleKeyDown ''ArrowLeft'' (st w) = navigateImage Prev (st w)"
    by (simp add: handleKeyDown_def)
  have right: "truthy (selectedImage (st w)) \<longrightarrow>
      handleKeyDown ''ArrowRight'' (st w) = navigateImage Next (st w)"
    by (simp add: handleKeyDown_def)
  have other: "key \<noteq> ''Escape'' \<and> key \<noteq> ''ArrowLeft'' \<and> key \<noteq> ''ArrowRight'' \<longrightarrow>
      handleKeyDown key (st w) = Inr (st w)"
    by (simp add: handleKeyDown_def)
  have falsy: "\<not> truthy (selectedImage (st w)) \<longrightarrow>
      handleKeyDown key (st w) = Inr (st w) \<and> step loc (KeyDown key) w = Inr w"
    by (simp add: handleKeyDown_def step_def)
  from closed op esc left right other falsy show ?thesis by blast
qed

theorem keyboard_router_witness:
  "reachable id (world_of (openImage ''/b.jpg'' 1 (loaded [imgA, imgB, imgC])))
   \<and> lightbox_open (st (world_of (openImage ''/b.jpg'' 1 (loaded [imgA, imgB, imgC]))))
   \<and> handleKeyDown ''Escape'' (st (world_of (openImage ''/b.jpg'' 1 (loaded [imgA, imgB, imgC]))))
       = Inr (loaded [imgA, imgB, imgC])
   \<and> handleKeyDown ''ArrowLeft'' (st (world_of (openImage ''/b.jpg'' 1 (loaded [imgA, imgB, imgC]))))
       = Inr (openImage ''/a.jpg'' 0 (loaded [imgA, imgB, imgC]))
   \<and> handleKeyDown ''ArrowRight'' (st (world_of (openImage ''/b.jpg'' 1 (loaded [imgA, imgB, imgC]))))
       = Inr (openImage ''/c.jpg'' 2 (loaded [imgA, imgB, imgC]))
   \<and> handleKeyDown ''Enter'' (st (world_of (openImage ''/b.jpg'' 1 (loaded [imgA, imgB, imgC]))))
       = Inr (openImage ''/b.jpg'' 1 (loaded [imgA, imgB, imgC]))
   \<and> reachable id (world_of (loaded [imgA, imgB, imgC]))
   \<and> \<not> lightbox_open (st (world_of (loaded [imgA, imgB, imgC])))
   \<and> handleKeyDown ''Escape'' (st (world_of (loaded [imgA, imgB, imgC])))
       = Inr (loaded [imgA, imgB, imgC])"
proof -
  have r: "reachable id (world_of (openImage ''/b.jpg'' 1 (loaded [imgA, imgB, imgC])))"
    using run_reachable [OF reach_mount run_ABC_B] .
  have c: "reachable id (world_of (loaded [imgA, imgB, imgC]))"
    using run_reachable [OF reach_mount run_ABC_loaded] .
  have z: "lightbox_open (st (world_of (openImage ''/b.jpg'' 1 (loaded [imgA, imgB, imgC]))))"
    "\<not> lightbox_open (st (world_of (loaded [imgA, imgB, imgC])))"
    by (simp_all add: lightbox_open_def world_of_def openImage_def loaded_def)
  have n: "closeImage (st (world_of (openImage ''/b.jpg'' 1 (loaded [imgA, imgB, imgC]))))
      = loaded [imgA, imgB, imgC]"
    "navigateImage Prev (st (world_of (openImage ''/b.jpg'' 1 (loaded [imgA, imgB, imgC]))))
      = Inr (openImage ''/a.jpg'' 0 (loaded [imgA, imgB, imgC]))"
    "navigateImage Next (st (world_of (openImage ''/b.jpg'' 1 (loaded [imgA, imgB, imgC]))))
      = Inr (openImage ''/c.jpg'' 2 (loaded [imgA, imgB, imgC]))"
    by (simp_all add: closeImage_def navigateImage_def at_index_def world_of_def openImage_def
        loaded_def imgA_def imgC_def)
  from keyboard_router [OF r, of "''Enter''"] keyboard_router [OF c, of "''Escape''"] r c z n
  show ?thesis by (simp add: world_of_def)
qed

section \<open>Clicking a tile\<close>

lemma run_AEN_loaded:
  "run id [Settled (Resolves okAEN)] mount = Inr (world_of (loaded [imgA, imgEmptySrc, imgNoSrc]))"
  by (simp add: step_def mount_def fetchImages_resume_def fetchImages_try_def ok_def okAEN_def
    world_of_def loaded_def fetchImages_begin_def initial_def)

lemma click_tile_step:
  assumes m: "mounted w" and r: "render loc (st w) = Inr (GridView tiles ov)"
    and k: "k < length (images (st w))"
  shows "step loc (Click (TileAt k)) w
           = Inr (w\<lparr>st := openImage (or_default (src (images (st w) ! k)) []) (int k) (st w)\<rparr>)"
proof -
  note g = render_GridView [OF r]
  from g k have kt: "k < length tiles" by simp
  from g tile_onClick_nth [OF k, of loc]
  have "tile_onClick (tiles ! k) = (or_default (src (images (st w) ! k)) [], int k)" by simp
  with m r kt show ?thesis by (simp add: step_def click_def)
qed

lemma render_after_open:
  assumes r: "render loc s = Inr (GridView tiles ov)"
  shows "render loc (openImage x i s)
           = (case renderOverlay loc (openImage x i s) of
                Inl e \<Rightarrow> Inl e | Inr ov' \<Rightarrow> Inr (GridView tiles ov'))"
  using render_GridView [OF r]
  by (simp add: render_def openImage_def split: sum.splits)

text \<open>
  The endpoint answers with three records, the second with the empty string as \<open>src\<close>.
  Clicking the second tile selects index 1, and the view rendered afterwards has the
  three tiles and no overlay, hence no counter.
\<close>

theorem tile_click_empty_src_no_overlay:
  "run id [Settled (Resolves okAEC), Click (TileAt 1)] mount
     = Inr (world_of (openImage [] 1 (loaded [imgA, imgEmptySrc, imgC])))
   \<and> selectedImageIndex (openImage [] 1 (loaded [imgA, imgEmptySrc, imgC])) = Some 1
   \<and> render id (openImage [] 1 (loaded [imgA, imgEmptySrc, imgC]))
       = Inr (GridView (map (renderTile id) (enumerate 0 [imgA, imgEmptySrc, imgC])) None)"
  using run_AEC_E
  by (simp add: openImage_def loaded_def render_def renderOverlay_def)

text \<open>
  Claim C8, amended. Clicking the grid tile at position \<open>k\<close> of a loaded sequence of
  length \<open>n\<close>, when the record there has a non-empty \<open>src\<close>, selects index \<open>k\<close> and that
  \<open>src\<close>, and the overlay rendered afterwards shows the counter \<open>{k+1} / {n}\<close>.
\<close>

theorem tile_click_opens_counter:
  assumes "mounted w" and "render loc (st w) = Inr (GridView tiles ov)"
    and "k < length (images (st w))" and "truthy (src (images (st w) ! k))"
  shows "\<exists>w' ov'. step loc (Click (TileAt k)) w = Inr w'
           \<and> selectedImageIndex (st w') = Some (int k)
           \<and> selectedImage (st w') = src (images (st w) ! k)
           \<and> render loc (st w') = Inr (GridView tiles (Some ov'))
           \<and> overlay_counter ov'
               = show_nat (k + 1) @ '' / '' @ show_nat (length (images (st w)))"
proof -
  obtain x where x: "src (images (st w) ! k) = Some x" "x \<noteq> []"
    using assms(4) by (cases "src (images (st w) ! k)") simp_all
  then have d: "or_default (src (images (st w) ! k)) [] = x" by (simp add: or_default_def)
  let ?s = "openImage x (int k) (st w)"
  have s: "step loc (Click (TileAt k)) w = Inr (w\<lparr>st := ?s\<rparr>)"
    using click_tile_step [OF assms(1) assms(2) assms(3)] d by simp
  obtain dl where dl: "lightboxDateLine loc (images (st w)) (int k) = Inr dl"
    using assms(3) by (simp add: lightboxDateLine_def at_index_def)
  let ?o = "\<lparr>overlay_src = x,
             overlay_counter = show_int (int k + 1) @ '' / '' @ show_nat (length (images (st w))),
             overlay_date = dl\<rparr>"
  have o: "renderOverlay loc ?s = Inr (Some ?o)"
    using x dl by (simp add: renderOverlay_def openImage_def)
  have rr: "render loc ?s = Inr (GridView tiles (Some ?o))"
    using render_after_open [OF assms(2), of x "int k"] o by simp
  have c: "overlay_counter ?o = show_nat (k + 1) @ '' / '' @ show_nat (length (images (st w)))"
    using show_int_Suc [of k] by simp
  have i: "selectedImageIndex ?s = Some (int k)" "selectedImage ?s = src (images (st w) ! k)"
    using x by (simp_all add: openImage_def)
  from s rr c i show ?thesis by (intro exI [of _ "w\<lparr>st := ?s\<rparr>"] exI [of _ ?o]) simp
qed

theorem tile_click_opens_counter_witness:
  "mounted (world_of (loaded [imgA, imgB, imgC]))
   \<and> render id (st (world_of (loaded [imgA, imgB, imgC])))
       = Inr (GridView (map (renderTile id) (enumerate 0 [imgA, imgB, imgC])) None)
   \<and> truthy (src ([imgA, imgB, imgC] ! 1))
   \<and> (\<exists>w' ov'. step id (Click (TileAt 1)) (world_of (loaded [imgA, imgB, imgC])) = Inr w'
         \<and> selectedImageIndex (st w') = Some 1
         \<and> render id (st w')
             = Inr (GridView (map (renderTile id) (enumerate 0 [imgA, imgB, imgC])) (Some ov'))
         \<and> overlay_counter ov' = ''2 / 3'')"
proof -
  have m: "mounted (world_of (loaded [imgA, imgB, imgC]))"
    by (simp add: world_of_def)
  have r: "render id (st (world_of (loaded [imgA, imgB, imgC])))
       = Inr (GridView (map (renderTile id) (enumerate 0 [imgA, imgB, imgC])) None)"
    using render_loaded [of "[imgA, imgB, imgC]" id] by (simp add: world_of_def)
  have k: "1 < length (images (st (world_of (loaded [imgA, imgB, imgC]))))"
    by (simp add: world_of_def loaded_def)
  have t: "truthy (src (images (st (world_of (loaded [imgA, imgB, imgC]))) ! 1))"
    by (simp add: world_of_def loaded_def imgB_def)
  have l: "images (st (world_of (loaded [imgA, imgB, imgC]))) = [imgA, imgB, imgC]"
    by (simp add: world_of_def loaded_def)
  from tile_click_opens_counter [OF m r k t] m r t l show_nat_digits
  show ?thesis by (auto simp add: numeral_2_eq_2 numeral_3_eq_3)
qed

text \<open>
  Claim C10. Clicking a tile whose record has an absent or empty \<open>src\<close> selects the
  tile's index and the empty string; afterwards the overlay is not rendered and no key
  changes the state.
\<close>

theorem tile_click_falsy_src:
  assumes "mounted w" and "render loc (st w) = Inr (GridView tiles ov)"
    and "k < length (images (st w))" and "\<not> truthy (src (images (st w) ! k))"
  shows "\<exists>w'. step loc (Click (TileAt k)) w = Inr w'
           \<and> selectedImageIndex (st w') = Some (int k)
           \<and> selectedImage (st w') = Some []
           \<and> \<not> lightbox_open (st w')
           \<and> render loc (st w') = Inr (GridView tiles None)
           \<and> (\<forall>key. handleKeyDown key (st w') = Inr (st w'))"
proof -
  have d: "or_default (src (images (st w) ! k)) [] = []"
    using assms(4) by (cases "src (images (st w) ! k)") (simp_all add: or_default_def)
  let ?s = "openImage [] (int k) (st w)"
  have s: "step loc (Click (TileAt k)) w = Inr (w\<lparr>st := ?s\<rparr>)"
    using click_tile_step [OF assms(1) assms(2) assms(3)] d by simp
  have o: "renderOverlay loc ?s = Inr None"
    by (simp add: renderOverlay_def openImage_def)
  have rr: "render loc ?s = Inr (GridView tiles None)"
    using render_after_open [OF assms(2), of "[]" "int k"] o by simp
  have f: "\<not> truthy (selectedImage ?s)" by (simp add: openImage_def)
  then have h: "\<forall>key. handleKeyDown key ?s = Inr ?s"
    by (simp add: handleKeyDown_falsy)
  have i: "selectedImageIndex ?s = Some (int k)" "selectedImage ?s = Some []"
    "\<not> lightbox_open ?s"
    by (simp_all add: openImage_def lightbox_open_def)
  from s rr h i show ?thesis by (intro exI [of _ "w\<lparr>st := ?s\<rparr>"]) simp
qed

theorem tile_click_falsy_src_witness:
  "mounted (world_of (loaded [imgA, imgEmptySrc, imgNoSrc]))
   \<and> reachable id (world_of (loaded [imgA, imgEmptySrc, imgNoSrc]))
   \<and> src ([imgA, imgEmptySrc, imgNoSrc] ! 1) = Some []
   \<and> src ([imgA, imgEmptySrc, imgNoSrc] ! 2) = None
   \<and> (\<exists>w'. step id (Click (TileAt 1)) (world_of (loaded [imgA, imgEmptySrc, imgNoSrc])) = Inr w'
         \<and> selectedImageIndex (st w') = Some 1 \<and> \<not> lightbox_open (st w')
         \<and> handleKeyDown ''ArrowRight'' (st w') = Inr (st w'))
   \<and> (\<exists>w'. step id (Click (TileAt 2)) (world_of (loaded [imgA, imgEmptySrc, imgNoSrc])) = Inr w'
         \<and> selectedImageIndex (st w') = Some 2 \<and> \<not> lightbox_open (st w')
         \<and> handleKeyDown ''ArrowRight'' (st w') = Inr (st w'))"
proof -
  let ?w = "world_of (loaded [imgA, imgEmptySrc, imgNoSrc])"
  have m: "mounted ?w" by (simp add: world_of_def)
  have re: "reachable id ?w" using run_reachable [OF reach_mount run_AEN_loaded] .
  have r: "render id (st ?w)
       = Inr (GridView (map (renderTile id) (enumerate 0 [imgA, imgEmptySrc, imgNoSrc])) None)"
    using render_loaded [of "[imgA, imgEmptySrc, imgNoSrc]" id] by (simp add: world_of_def)
  have k: "1 < length (images (st ?w))" "2 < length (images (st ?w))"
    by (simp_all add: world_of_def loaded_def)
  have t: "\<not> truthy (src (images (st ?w) ! 1))" "\<not> truthy (src (images (st ?w) ! 2))"
    by (simp_all add: world_of_def loaded_def imgEmptySrc_def imgNoSrc_def)
  have e: "src ([imgA, imgEmptySrc, imgNoSrc] ! 1) = Some []"
    "src ([imgA, imgEmptySrc, imgNoSrc] ! 2) = None"
    by (simp_all add: imgEmptySrc_def imgNoSrc_def)
  from tile_click_falsy_src [OF m r k(1) t(1)] tile_click_falsy_src [OF m r k(2) t(2)] m re e
  show ?thesis by auto
qed

section \<open>Unmounting while the request is in flight\<close>

text \<open>
  The component is unmounted right after the mount and the request resolves afterwards
  with three records: the unmount leaves the request in flight, and when it settles the
  setters are called with the records and with \<open>loading = false\<close>.
\<close>

theorem unmount_then_settle_sets_state:
  "step id Unmount mount = Inr (unmount mount)
   \<and> fetch_pending (unmount mount)
   \<and> images (st (unmount mount)) = []
   \<and> loading (st (unmount mount))
   \<and> step id (Settled (Resolves okABC)) (unmount mount)
       = Inr \<lparr>st = loaded [imgA, imgB, imgC], mounted = False, fetch_pending = False,
              keydown_listener = False\<rparr>"
  by (simp add: step_def unmount_def mount_def fetchImages_resume_def fetchImages_try_def ok_def
      okABC_def loaded_def fetchImages_begin_def initial_def)

text \<open>
  Claim C2, amended. Unmounting removes the \<open>keydown\<close> listener and nothing else: it
  changes no state and leaves an in-flight request in flight; afterwards keys and clicks
  have no effect, and when the request settles \<open>fetchImages\<close> passes the outcome to the
  setters exactly as it does in a mounted component, ending with \<open>loading = false\<close>.
\<close>

theorem unmount_leaves_fetch_running:
  "step loc Unmount w = Inr (unmount w)
   \<and> st (unmount w) = st w
   \<and> fetch_pending (unmount w) = fetch_pending w
   \<and> \<not> mounted (unmount w) \<and> \<not> keydown_listener (unmount w)
   \<and> step loc (KeyDown key) (unmount w) = Inr (unmount w)
   \<and> step loc (Click t) (unmount w) = Inr (unmount w)
   \<and> (fetch_pending w \<longrightarrow>
        step loc (Settled r) (unmount w)
          = Inr ((unmount w)\<lparr>st := fetchImages_resume r (st w), fetch_pending := False\<rparr>)
        \<and> \<not> loading (fetchImages_resume r (st w)))"
  by (simp add: step_def unmount_def fetchImages_resume_def Let_def)

theorem unmount_leaves_fetch_running_witness:
  "fetch_pending mount
   \<and> fetch_pending (unmount mount)
   \<and> step id (Settled (Resolves okABC)) (unmount mount)
       = Inr ((unmount mount)\<lparr>st := fetchImages_resume (Resolves okABC) (st mount),
                               fetch_pending := False\<rparr>)
   \<and> images (fetchImages_resume (Resolves okABC) (st mount)) = [imgA, imgB, imgC]"
proof -
  have p: "fetch_pending mount" by (simp add: mount_def)
  have i: "images (fetchImages_resume (Resolves okABC) (st mount)) = [imgA, imgB, imgC]"
    by (simp add: fetchImages_resume_def fetchImages_try_def ok_def okABC_def)
  from unmount_leaves_fetch_running [of id mount _ _ "Resolves okABC"] p i
  show ?thesis by simp
qed

end
